theory Spec2Isabelle
  imports Complex_Main "HOL-Library.AList"
begin

section \<open>Course analytics of \<^verbatim>\<open>src/routes/faculty.js\<close>\<close>

text \<open>
  The four analytics helpers of the faculty routes are embedded here:
  \<^verbatim>\<open>calculateAverageAttendance\<close>, \<^verbatim>\<open>calculateAssignmentCompletion\<close>,
  \<^verbatim>\<open>generatePerformanceDistribution\<close> and \<^verbatim>\<open>calculateWeeklyEngagement\<close>.
\<close>

subsection \<open>JavaScript numbers\<close>

text \<open>
  A JavaScript number is an IEEE-754 binary64 value: a finite value, one of the two
  infinities, or NaN. Addition, multiplication and division compute the exact real result
  and round it to the nearest double, ties going to the even significand; a result whose
  rounded magnitude reaches \<open>2^1024\<close> is an infinity. So \<^verbatim>\<open>(1 / 3) * 100\<close> is
  \<^verbatim>\<open>33.33333333333333\<close>, below the real \<open>100 / 3\<close>.

  The doubles between \<open>2^e\<close> and \<open>2^(e + 1)\<close> are the multiples of
  \<open>2^(e - 52)\<close>; below \<open>2^(- 1022)\<close> (the subnormal range) they are the multiples of
  \<open>2^(- 1074)\<close>.

  There is a single zero, read as \<open>+0\<close>: every divisor in the code is an array length
  or a positive constant. Division by zero does not raise in JavaScript; it yields an
  infinity or NaN, and every comparison with NaN is false. Counts of array elements are
  natural numbers: they stay below \<open>2^53\<close>, where every integer is a double.
\<close>

datatype jsnum = Fin real | PosInf | NegInf | NaN

text \<open>The least exponent of a normal double.\<close>

definition emin :: int where
  "emin = - 1022"

text \<open>
  The exponent \<open>e\<close> of the binade \<open>2^e \<le> \<bar>x\<bar> < 2^(e + 1)\<close> of a non-zero \<open>x\<close>,
  held at \<open>emin\<close> in the subnormal range, and the distance between neighbouring doubles
  there.
\<close>

definition expo :: "real \<Rightarrow> int" where
  "expo x = max \<lfloor>log 2 \<bar>x\<bar>\<rfloor> emin"

definition ulp :: "real \<Rightarrow> real" where
  "ulp x = 2 powi (expo x - 52)"

text \<open>The nearest integer, the even one of the two when they are equally near.\<close>

definition roundEven :: "real \<Rightarrow> int" where
  "roundEven y =
     (let f = \<lfloor>y\<rfloor>
      in if y - of_int f < 1 / 2 then f
         else if 1 / 2 < y - of_int f then f + 1
         else if even f then f else f + 1)"

text \<open>Rounding of a real to the nearest double, the exponent range unbounded above.\<close>

definition rnd :: "real \<Rightarrow> real" where
  "rnd x = sgn x * (of_int (roundEven (\<bar>x\<bar> / ulp x)) * ulp x)"

text \<open>The magnitude from which a rounded result is an infinity.\<close>

definition huge :: real where
  "huge = 2 ^ 1024"

definition toDouble :: "real \<Rightarrow> jsnum" where
  "toDouble x =
     (let r = rnd x
      in if huge \<le> r then PosInf else if r \<le> - huge then NegInf else Fin r)"

fun js_add :: "jsnum \<Rightarrow> jsnum \<Rightarrow> jsnum" where
  "js_add NaN y = NaN"
| "js_add x NaN = NaN"
| "js_add (Fin a) (Fin b) = toDouble (a + b)"
| "js_add PosInf NegInf = NaN"
| "js_add NegInf PosInf = NaN"
| "js_add PosInf y = PosInf"
| "js_add NegInf y = NegInf"
| "js_add (Fin a) y = y"

fun js_mul :: "jsnum \<Rightarrow> jsnum \<Rightarrow> jsnum" where
  "js_mul NaN y = NaN"
| "js_mul x NaN = NaN"
| "js_mul (Fin a) (Fin b) = toDouble (a * b)"
| "js_mul (Fin a) PosInf = (if 0 < a then PosInf else if a < 0 then NegInf else NaN)"
| "js_mul (Fin a) NegInf = (if 0 < a then NegInf else if a < 0 then PosInf else NaN)"
| "js_mul PosInf (Fin b) = (if 0 < b then PosInf else if b < 0 then NegInf else NaN)"
| "js_mul NegInf (Fin b) = (if 0 < b then NegInf else if b < 0 then PosInf else NaN)"
| "js_mul PosInf PosInf = PosInf"
| "js_mul NegInf NegInf = PosInf"
| "js_mul PosInf NegInf = NegInf"
| "js_mul NegInf PosInf = NegInf"

fun js_div :: "jsnum \<Rightarrow> jsnum \<Rightarrow> jsnum" where
  "js_div NaN y = NaN"
| "js_div x NaN = NaN"
| "js_div (Fin a) (Fin b) =
     (if b \<noteq> 0 then toDouble (a / b)
      else if 0 < a then PosInf else if a < 0 then NegInf else NaN)"
| "js_div (Fin a) y = Fin 0"
| "js_div PosInf (Fin b) = (if 0 \<le> b then PosInf else NegInf)"
| "js_div NegInf (Fin b) = (if 0 \<le> b then NegInf else PosInf)"
| "js_div x y = NaN"

fun js_le :: "jsnum \<Rightarrow> jsnum \<Rightarrow> bool" where
  "js_le NaN y = False"
| "js_le x NaN = False"
| "js_le (Fin a) (Fin b) = (a \<le> b)"
| "js_le NegInf y = True"
| "js_le x PosInf = True"
| "js_le x y = False"

text \<open>A number that is a percentage: finite and within the closed interval from 0 to 100.\<close>

fun is_percentage :: "jsnum \<Rightarrow> bool" where
  "is_percentage (Fin r) = (0 \<le> r \<and> r \<le> 100)"
| "is_percentage x = False"

subsection \<open>Documents\<close>

text \<open>
  The Mongoose models are not part of the routes file; the documents carry the fields the
  helpers read. A student reference is the string its \<^verbatim>\<open>toString()\<close> gives (the
  hexadecimal form of an ObjectId), which is also the property key it becomes in an object.
  A \<^verbatim>\<open>Date\<close> is its time value in milliseconds since the epoch.
\<close>

type_synonym student_id = string

record submission =
  student :: student_id
  submittedAt :: int
  totalScore :: jsnum

record assignment =
  submissions :: "submission list"

record student_doc =
  student_oid :: student_id

record attendance_mark =
  mark_student :: student_id
  status :: string

record attendance_record =
  students :: "attendance_mark list"

subsection \<open>calculateAverageAttendance\<close>

definition calculateAverageAttendance :: "attendance_record list \<Rightarrow> jsnum" where
  "calculateAverageAttendance attendance =
     (case attendance of
        [] \<Rightarrow> Fin 0
      | first # others \<Rightarrow>
          (let present = foldl (\<lambda>total r.
                 total + length (filter (\<lambda>s. status s = ''present'') (students r)))
                 0 attendance
           in js_mul
                (js_div (Fin (real present))
                        (Fin (real (length attendance * length (students first)))))
                (Fin 100)))"

subsection \<open>calculateAssignmentCompletion\<close>

text \<open>
  The object \<^verbatim>\<open>studentCompletions\<close> is an association list in the order in which
  its keys were created (the order \<^verbatim>\<open>Object.values\<close> follows for keys that are not
  array indices, as ObjectId strings are). An assignment to an existing key keeps its place.
  The second parameter, \<^verbatim>\<open>students\<close> in the source, is never read; it is named
  \<open>roster\<close> here and below, \<open>students\<close> being the field of an attendance record.
\<close>

type_synonym completions = "(student_id \<times> nat) list"

definition countSubmission :: "completions \<Rightarrow> submission \<Rightarrow> completions" where
  "countSubmission sc sub =
     AList.update (student sub)
       ((case map_of sc (student sub) of None \<Rightarrow> 0 | Some c \<Rightarrow> c) + 1) sc"

definition studentCompletions :: "assignment list \<Rightarrow> completions" where
  "studentCompletions assignments =
     foldl (\<lambda>sc a. foldl countSubmission sc (submissions a)) [] assignments"

definition calculateAssignmentCompletion ::
  "assignment list \<Rightarrow> student_doc list \<Rightarrow> jsnum list" where
  "calculateAssignmentCompletion assignments roster =
     (let totalAssignments = length assignments
      in map (\<lambda>completed.
                js_mul (js_div (Fin (real completed)) (Fin (real totalAssignments))) (Fin 100))
             (map snd (studentCompletions assignments)))"

subsection \<open>generatePerformanceDistribution\<close>

record distribution =
  b_0_20 :: nat
  b_21_40 :: nat
  b_41_60 :: nat
  b_61_80 :: nat
  b_81_100 :: nat

definition scores :: "assignment list \<Rightarrow> student_doc \<Rightarrow> jsnum list" where
  "scores assignments st =
     map (\<lambda>a. case find (\<lambda>s. student s = student_oid st) (submissions a) of
                 Some sub \<Rightarrow> totalScore sub
               | None \<Rightarrow> Fin 0)
         assignments"

definition avgScore :: "assignment list \<Rightarrow> student_doc \<Rightarrow> jsnum" where
  "avgScore assignments st =
     js_div (foldl js_add (Fin 0) (scores assignments st))
            (Fin (real (length (scores assignments st))))"

definition categorize :: "jsnum \<Rightarrow> distribution \<Rightarrow> distribution" where
  "categorize avg d =
     (if js_le avg (Fin 20) then d\<lparr>b_0_20 := b_0_20 d + 1\<rparr>
      else if js_le avg (Fin 40) then d\<lparr>b_21_40 := b_21_40 d + 1\<rparr>
      else if js_le avg (Fin 60) then d\<lparr>b_41_60 := b_41_60 d + 1\<rparr>
      else if js_le avg (Fin 80) then d\<lparr>b_61_80 := b_61_80 d + 1\<rparr>
      else d\<lparr>b_81_100 := b_81_100 d + 1\<rparr>)"

definition generatePerformanceDistribution ::
  "assignment list \<Rightarrow> student_doc list \<Rightarrow> distribution" where
  "generatePerformanceDistribution assignments roster =
     foldl (\<lambda>d st. categorize (avgScore assignments st) d)
       \<lparr>b_0_20 = 0, b_21_40 = 0, b_41_60 = 0, b_61_80 = 0, b_81_100 = 0\<rparr>
       roster"

subsection \<open>calculateWeeklyEngagement\<close>

text \<open>
  The function reads the clock and the database. Its environment gives the value of the
  \<open>k\<close>-th evaluation of \<^verbatim>\<open>new Date()\<close> within the call, the effect of
  \<^verbatim>\<open>setDate(getDate() - 28)\<close> on a time value (calendar arithmetic in the host's
  time zone), and the assignments of the course \<^verbatim>\<open>findById\<close> finds (\<open>None\<close> when
  there is no such course, in which case reading \<^verbatim>\<open>course.assignments\<close> throws).
\<close>

datatype error = TypeError

record env =
  newDate :: "nat \<Rightarrow> int"
  setDateBack28 :: "int \<Rightarrow> int"
  findById :: "string \<Rightarrow> assignment list option"

definition week_ms :: int where
  "week_ms = 7 * 24 * 60 * 60 * 1000"

text \<open>
  \<^verbatim>\<open>populate\<close> with \<^verbatim>\<open>match\<close> keeps the assignments that have some submission
  at or after the cutoff, each with all of its submissions.
\<close>

definition populateMatch :: "int \<Rightarrow> assignment list \<Rightarrow> assignment list" where
  "populateMatch fourWeeksAgo assignments =
     filter (\<lambda>a. list_ex (\<lambda>s. fourWeeksAgo \<le> submittedAt s) (submissions a)) assignments"

text \<open>The body of the inner loop, given the value \<^verbatim>\<open>new Date()\<close> has there.\<close>

definition countWeek :: "int \<Rightarrow> submission \<Rightarrow> nat list \<Rightarrow> nat list" where
  "countWeek now sub weeklyData =
     (let weekIndex = (now - submittedAt sub) div week_ms
      in if 0 \<le> weekIndex \<and> weekIndex < 4
         then weeklyData[nat weekIndex := weeklyData ! nat weekIndex + 1]
         else weeklyData)"

text \<open>
  The loops thread the number of clock readings made so far together with
  \<^verbatim>\<open>weeklyData\<close>: each submission reads the clock once.
\<close>

fun forEachSubmission ::
  "(nat \<Rightarrow> int) \<Rightarrow> submission list \<Rightarrow> nat \<times> nat list \<Rightarrow> nat \<times> nat list" where
  "forEachSubmission clock [] st = st"
| "forEachSubmission clock (sub # subs) (k, weeklyData) =
     forEachSubmission clock subs (Suc k, countWeek (clock k) sub weeklyData)"

fun forEachAssignment ::
  "(nat \<Rightarrow> int) \<Rightarrow> assignment list \<Rightarrow> nat \<times> nat list \<Rightarrow> nat \<times> nat list" where
  "forEachAssignment clock [] st = st"
| "forEachAssignment clock (a # as) st =
     forEachAssignment clock as (forEachSubmission clock (submissions a) st)"

definition calculateWeeklyEngagement :: "env \<Rightarrow> string \<Rightarrow> error + nat list" where
  "calculateWeeklyEngagement e courseId =
     (let fourWeeksAgo = setDateBack28 e (newDate e 0)
      in case findById e courseId of
           None \<Rightarrow> Inl TypeError
         | Some assignments \<Rightarrow>
             Inr (rev (snd (forEachAssignment (newDate e)
                              (populateMatch fourWeeksAgo assignments)
                              (1, replicate 4 0)))))"

subsection \<open>Reference notions and sample inputs\<close>

text \<open>
  The numerator of the attendance rate as the specification words it: the markings, over
  all sessions, whose status is the string \<^verbatim>\<open>present\<close>.
\<close>

definition presentMarkings :: "attendance_record list \<Rightarrow> nat" where
  "presentMarkings attendance =
     length (filter (\<lambda>m. status m = ''present'') (concat (map students attendance)))"

text \<open>The expression \<^verbatim>\<open>(p / d) * 100\<close> on two counts.\<close>

definition percent :: "nat \<Rightarrow> nat \<Rightarrow> jsnum" where
  "percent p d = js_mul (js_div (Fin (real p)) (Fin (real d))) (Fin 100)"

text \<open>Two sessions of two students each; one is absent, then excused.\<close>

definition twoSessions :: "attendance_record list" where
  "twoSessions =
     [\<lparr>students = [\<lparr>mark_student = ''A'', status = ''present''\<rparr>,
                   \<lparr>mark_student = ''B'', status = ''absent''\<rparr>]\<rparr>,
      \<lparr>students = [\<lparr>mark_student = ''A'', status = ''present''\<rparr>,
                   \<lparr>mark_student = ''B'', status = ''excused''\<rparr>]\<rparr>]"

text \<open>One session of twenty students, eleven of them present.\<close>

definition elevenOfTwenty :: "attendance_record list" where
  "elevenOfTwenty =
     [\<lparr>students = replicate 11 \<lparr>mark_student = ''A'', status = ''present''\<rparr>
                   @ replicate 9 \<lparr>mark_student = ''B'', status = ''late''\<rparr>\<rparr>]"

text \<open>A first session of one student followed by a session of three, all present.\<close>

definition growingRoster :: "attendance_record list" where
  "growingRoster =
     [\<lparr>students = [\<lparr>mark_student = ''A'', status = ''present''\<rparr>]\<rparr>,
      \<lparr>students = [\<lparr>mark_student = ''A'', status = ''present''\<rparr>,
                   \<lparr>mark_student = ''B'', status = ''present''\<rparr>,
                   \<lparr>mark_student = ''C'', status = ''present''\<rparr>]\<rparr>]"





text \<open>The sum of the five bucket counts.\<close>

definition bucketTotal :: "distribution \<Rightarrow> nat" where
  "bucketTotal d = b_0_20 d + b_21_40 d + b_41_60 d + b_61_80 d + b_81_100 d"

text \<open>The submissions of all assignments, in the order the two nested loops visit them.\<close>

definition allSubmissions :: "assignment list \<Rightarrow> submission list" where
  "allSubmissions assignments = concat (map submissions assignments)"

text \<open>The number of submission records of a student over all assignments, duplicates included.\<close>

definition submissionCount :: "assignment list \<Rightarrow> student_id \<Rightarrow> nat" where
  "submissionCount assignments k =
     length (filter (\<lambda>s. student s = k) (allSubmissions assignments))"

text \<open>The count an object of completions holds for a key, 0 when the key is absent.\<close>

definition tally :: "completions \<Rightarrow> student_id \<Rightarrow> nat" where
  "tally sc k = (case map_of sc k of None \<Rightarrow> 0 | Some c \<Rightarrow> c)"

text \<open>One assignment that student A submitted twice.\<close>

definition duplicated :: "assignment list" where
  "duplicated =
     [\<lparr>submissions = [\<lparr>student = ''A'', submittedAt = 1, totalScore = Fin 10\<rparr>,
                      \<lparr>student = ''A'', submittedAt = 2, totalScore = Fin 30\<rparr>]\<rparr>]"

text \<open>The same assignment with only the later of the two submissions of A.\<close>

definition lastOnly :: "assignment list" where
  "lastOnly =
     [\<lparr>submissions = [\<lparr>student = ''A'', submittedAt = 2, totalScore = Fin 30\<rparr>]\<rparr>]"

text \<open>One assignment, submitted by student A only.\<close>

definition onlyA :: "assignment list" where
  "onlyA = [\<lparr>submissions = [\<lparr>student = ''A'', submittedAt = 1, totalScore = Fin 10\<rparr>]\<rparr>]"

text \<open>Three assignments, of which student A submitted the first only.\<close>

definition oneOfThree :: "assignment list" where
  "oneOfThree =
     [\<lparr>submissions = [\<lparr>student = ''A'', submittedAt = 1, totalScore = Fin 10\<rparr>]\<rparr>,
      \<lparr>submissions = []\<rparr>, \<lparr>submissions = []\<rparr>]"

text \<open>A roster of two students, A and B.\<close>

definition rosterAB :: "student_doc list" where
  "rosterAB = [\<lparr>student_oid = ''A''\<rparr>, \<lparr>student_oid = ''B''\<rparr>]"

text \<open>
  The week index as the code computes it for the \<open>i\<close>-th submission the loops visit:
  from the value \<^verbatim>\<open>new Date()\<close> has when that submission is visited (reading 0 is
  the one the cutoff is made from, so the \<open>i\<close>-th submission has reading \<open>i + 1\<close>),
  minus the time of the submission, divided by seven days and rounded down.
\<close>

definition weekIndexOf :: "(nat \<Rightarrow> int) \<Rightarrow> submission list \<Rightarrow> nat \<Rightarrow> int" where
  "weekIndexOf clock subs i = (clock (Suc i) - submittedAt (subs ! i)) div week_ms"

text \<open>The time between a submission and the clock reading taken when it is visited.\<close>

definition ageOf :: "(nat \<Rightarrow> int) \<Rightarrow> submission list \<Rightarrow> nat \<Rightarrow> int" where
  "ageOf clock subs i = clock (Suc i) - submittedAt (subs ! i)"

text \<open>The number of visited submissions whose week index, so computed, is \<open>k\<close>.\<close>

definition inWeek :: "(nat \<Rightarrow> int) \<Rightarrow> submission list \<Rightarrow> nat \<Rightarrow> nat" where
  "inWeek clock subs k =
     length (filter (\<lambda>i. weekIndexOf clock subs i = int k) [0..<length subs])"

text \<open>
  The week index as the specification words it, from one instant \<open>now\<close> for the whole
  call, the number of submissions it puts in week \<open>k\<close>, and the trend it gives, oldest
  week first.
\<close>

definition weekIndexAt :: "int \<Rightarrow> submission \<Rightarrow> int" where
  "weekIndexAt now sub = (now - submittedAt sub) div week_ms"

definition atInstant :: "int \<Rightarrow> submission list \<Rightarrow> nat \<Rightarrow> nat" where
  "atInstant now subs k = length (filter (\<lambda>s. weekIndexAt now s = int k) subs)"

definition trendAt :: "int \<Rightarrow> submission list \<Rightarrow> nat list" where
  "trendAt now subs =
     [atInstant now subs 3, atInstant now subs 2, atInstant now subs 1, atInstant now subs 0]"

text \<open>The assignments the query of a call loads.\<close>

definition loaded :: "env \<Rightarrow> assignment list \<Rightarrow> assignment list" where
  "loaded e assignments = populateMatch (setDateBack28 e (newDate e 0)) assignments"

text \<open>\<^verbatim>\<open>setDate(getDate() - 28)\<close> where a day always has 24 hours.\<close>

definition fourWeeks :: "int \<Rightarrow> int" where
  "fourWeeks t = t - 28 * 24 * 60 * 60 * 1000"

text \<open>
  With day 100 after the epoch as the present: submissions 1, 8, 15 and 22 days old, one
  30 days old and one a day ahead.
\<close>

definition monthOfWork :: "assignment list" where
  "monthOfWork =
     [\<lparr>submissions = [\<lparr>student = ''A'', submittedAt = 8553600000, totalScore = Fin 10\<rparr>,
                      \<lparr>student = ''B'', submittedAt = 7948800000, totalScore = Fin 10\<rparr>,
                      \<lparr>student = ''C'', submittedAt = 6048000000, totalScore = Fin 10\<rparr>]\<rparr>,
      \<lparr>submissions = [\<lparr>student = ''A'', submittedAt = 7344000000, totalScore = Fin 10\<rparr>,
                      \<lparr>student = ''B'', submittedAt = 6739200000, totalScore = Fin 10\<rparr>,
                      \<lparr>student = ''C'', submittedAt = 8726400000, totalScore = Fin 10\<rparr>]\<rparr>]"

text \<open>A clock that stands still at day 100 during the call.\<close>

definition steadyEnv :: env where
  "steadyEnv = \<lparr>newDate = (\<lambda>k. 8640000000), setDateBack28 = fourWeeks,
                findById = (\<lambda>c. if c = ''c1'' then Some monthOfWork else None)\<rparr>"

text \<open>Two submissions made at the same instant, day 100.\<close>

definition sameInstant :: "assignment list" where
  "sameInstant =
     [\<lparr>submissions = [\<lparr>student = ''A'', submittedAt = 8640000000, totalScore = Fin 10\<rparr>,
                      \<lparr>student = ''B'', submittedAt = 8640000000, totalScore = Fin 10\<rparr>]\<rparr>]"

text \<open>
  A clock that advances by one millisecond between the two iterations of the loop, from
  just under to exactly seven days after day 100.
\<close>

definition tickingEnv :: env where
  "tickingEnv = \<lparr>newDate = (\<lambda>k. if k \<le> 1 then 9244799999 else 9244800000),
                 setDateBack28 = fourWeeks,
                 findById = (\<lambda>c. if c = ''c1'' then Some sameInstant else None)\<rparr>"

section \<open>Properties\<close>

subsection \<open>Rounding to a double\<close>

lemma two_powi_less_D: "(2::real) powi a < 2 powi b \<Longrightarrow> a < b"
proof (rule ccontr)
  assume "(2::real) powi a < 2 powi b" and "\<not> a < b"
  then have "b \<le> a" by simp
  then have "(2::real) powi b \<le> 2 powi a" by (intro power_int_increasing) simp_all
  with \<open>(2::real) powi a < 2 powi b\<close> show False by linarith
qed

lemma floor_log2_eq:
  assumes "0 < x"
  shows "\<lfloor>log 2 x\<rfloor> = k \<longleftrightarrow> 2 powi k \<le> x \<and> x < 2 powi (k + 1)"
  using floor_log_eq_powr_iff [of x 2 k] assms
  by (simp add: powr_real_of_int' [symmetric])

lemma expo_eq:
  assumes "x \<noteq> 0" and "emin \<le> e" and "2 powi e \<le> \<bar>x\<bar>" and "\<bar>x\<bar> < 2 powi (e + 1)"
  shows "expo x = e"
proof -
  have "\<lfloor>log 2 \<bar>x\<bar>\<rfloor> = e" using assms by (simp add: floor_log2_eq)
  then show ?thesis using assms(2) by (simp add: expo_def)
qed

lemma expo_ge: "emin \<le> expo x"
  by (simp add: expo_def)

lemma expo_upper:
  assumes "x \<noteq> 0"
  shows "\<bar>x\<bar> < 2 powi (expo x + 1)"
proof -
  let ?k = "\<lfloor>log 2 \<bar>x\<bar>\<rfloor>"
  have "\<bar>x\<bar> < 2 powi (?k + 1)" using assms floor_log2_eq [of "\<bar>x\<bar>" ?k] by simp
  also have "(2::real) powi (?k + 1) \<le> 2 powi (expo x + 1)"
    by (rule power_int_increasing) (simp_all add: expo_def)
  finally show ?thesis .
qed

lemma expo_lower:
  assumes "2 powi emin \<le> \<bar>x\<bar>"
  shows "2 powi (expo x) \<le> \<bar>x\<bar>"
proof -
  let ?k = "\<lfloor>log 2 \<bar>x\<bar>\<rfloor>"
  have "(0::real) < 2 powi emin" by simp
  with assms have pos: "0 < \<bar>x\<bar>" by linarith
  then have x: "x \<noteq> 0" by simp
  have k: "2 powi ?k \<le> \<bar>x\<bar>" using pos floor_log2_eq [of "\<bar>x\<bar>" ?k] by simp
  have "\<bar>x\<bar> < 2 powi (?k + 1)" using pos floor_log2_eq [of "\<bar>x\<bar>" ?k] by simp
  with assms have "(2::real) powi emin < 2 powi (?k + 1)" by linarith
  then have "emin < ?k + 1" by (rule two_powi_less_D)
  then have "expo x = ?k" by (simp add: expo_def)
  with k show ?thesis by simp
qed

lemma expo_mono:
  assumes "x \<noteq> 0" and "\<bar>x\<bar> \<le> \<bar>y\<bar>"
  shows "expo x \<le> expo y"
proof -
  have "log 2 \<bar>x\<bar> \<le> log 2 \<bar>y\<bar>" using assms by simp
  then have "\<lfloor>log 2 \<bar>x\<bar>\<rfloor> \<le> \<lfloor>log 2 \<bar>y\<bar>\<rfloor>" by (rule floor_mono)
  then show ?thesis by (simp add: expo_def)
qed

lemma ulp_pos: "0 < ulp x"
  by (simp add: ulp_def)

lemma roundEven_of_int: "roundEven (of_int k) = k"
  by (simp add: roundEven_def)

lemma roundEven_mono:
  assumes "y \<le> z"
  shows "roundEven y \<le> roundEven z"
proof -
  have fl: "\<lfloor>y\<rfloor> \<le> \<lfloor>z\<rfloor>" using assms by (rule floor_mono)
  show ?thesis
  proof (cases "\<lfloor>y\<rfloor> = \<lfloor>z\<rfloor>")
    case True
    with assms show ?thesis by (auto simp: roundEven_def Let_def)
  next
    case False
    with fl have "\<lfloor>y\<rfloor> + 1 \<le> \<lfloor>z\<rfloor>" by simp
    moreover have "roundEven y \<le> \<lfloor>y\<rfloor> + 1" by (simp add: roundEven_def Let_def)
    moreover have "\<lfloor>z\<rfloor> \<le> roundEven z" by (simp add: roundEven_def Let_def)
    ultimately show ?thesis by linarith
  qed
qed

lemma roundEven_nonneg: "0 \<le> y \<Longrightarrow> 0 \<le> roundEven y"
  using roundEven_mono [of 0 y] roundEven_of_int [of 0] by simp

lemma expo_minus: "expo (- x) = expo x"
  by (simp add: expo_def)

lemma ulp_minus: "ulp (- x) = ulp x"
  by (simp add: ulp_def expo_minus)

lemma rnd_0: "rnd 0 = 0"
  by (simp add: rnd_def)

lemma rnd_minus: "rnd (- x) = - rnd x"
  by (simp add: rnd_def ulp_minus sgn_minus)

lemma rnd_pos_eq: "0 < x \<Longrightarrow> rnd x = of_int (roundEven (x / ulp x)) * ulp x"
  by (simp add: rnd_def)

lemma rnd_nonneg: "0 \<le> x \<Longrightarrow> 0 \<le> rnd x"
proof (cases "x = 0")
  case True
  then show ?thesis by (simp add: rnd_0)
next
  case False
  assume "0 \<le> x"
  with False have x: "0 < x" by simp
  have "0 \<le> x / ulp x" using x ulp_pos [of x] by simp
  then have "0 \<le> roundEven (x / ulp x)" by (rule roundEven_nonneg)
  then show ?thesis
    unfolding rnd_pos_eq [OF x] using ulp_pos [of x] by simp
qed

lemma ulp_scale: "of_int (2 ^ n) * ulp x = 2 powi (expo x - 52 + int n)"
proof -
  have "(2::real) powi (expo x - 52 + int n) = 2 powi (expo x - 52) * 2 powi (int n)"
    by (rule power_int_add) simp
  then show ?thesis by (simp add: ulp_def)
qed

lemma ulp_53: "of_int (2 ^ 53) * ulp x = 2 powi (expo x + 1)"
proof -
  have "expo x - 52 + int 53 = expo x + 1" by simp
  then show ?thesis using ulp_scale [of 53 x] by (simp only:)
qed

lemma ulp_52: "of_int (2 ^ 52) * ulp x = 2 powi (expo x)"
proof -
  have "expo x - 52 + int 52 = expo x" by simp
  then show ?thesis using ulp_scale [of 52 x] by (simp only:)
qed

lemma rnd_upper:
  assumes "0 < x"
  shows "rnd x \<le> 2 powi (expo x + 1)"
proof -
  have "x < 2 powi (expo x + 1)" using expo_upper [of x] assms by simp
  also have "\<dots> = of_int (2 ^ 53) * ulp x"
    by (rule ulp_53 [symmetric])
  finally have "x / ulp x \<le> of_int (2 ^ 53)"
    using ulp_pos [of x] by (simp add: pos_divide_le_eq)
  then have "roundEven (x / ulp x) \<le> roundEven (of_int (2 ^ 53))" by (rule roundEven_mono)
  then have "roundEven (x / ulp x) \<le> 2 ^ 53" by (simp only: roundEven_of_int)
  then have "of_int (roundEven (x / ulp x)) * ulp x \<le> of_int (2 ^ 53) * ulp x"
    using ulp_pos [of x] by (intro mult_right_mono) simp_all
  also have "\<dots> = 2 powi (expo x + 1)" by (rule ulp_53)
  finally show ?thesis unfolding rnd_pos_eq [OF assms] .
qed

lemma rnd_lower:
  assumes "2 powi emin \<le> x"
  shows "2 powi (expo x) \<le> rnd x"
proof -
  have "(0::real) < 2 powi emin" by simp
  with assms have x: "0 < x" by linarith
  have "2 powi (expo x) \<le> x" using expo_lower [of x] assms x by simp
  moreover have e: "2 powi (expo x) = of_int (2 ^ 52) * ulp x"
    by (rule ulp_52 [symmetric])
  ultimately have "of_int (2 ^ 52) \<le> x / ulp x"
    using ulp_pos [of x] by (simp add: pos_le_divide_eq)
  then have "roundEven (of_int (2 ^ 52)) \<le> roundEven (x / ulp x)" by (rule roundEven_mono)
  then have "2 ^ 52 \<le> roundEven (x / ulp x)" by (simp only: roundEven_of_int)
  then have "of_int (2 ^ 52) * ulp x \<le> of_int (roundEven (x / ulp x)) * ulp x"
    using ulp_pos [of x] by (intro mult_right_mono) simp_all
  then show ?thesis unfolding rnd_pos_eq [OF x] e .
qed

lemma rnd_mono_pos:
  assumes "0 < x" and "x \<le> y"
  shows "rnd x \<le> rnd y"
proof -
  from assms have y: "0 < y" by linarith
  have le: "expo x \<le> expo y" using assms by (intro expo_mono) simp_all
  show ?thesis
  proof (cases "expo x = expo y")
    case True
    then have u: "ulp x = ulp y" by (simp add: ulp_def)
    have "x / ulp y \<le> y / ulp y" using assms(2) ulp_pos [of y] by (simp add: divide_right_mono)
    then have "roundEven (x / ulp y) \<le> roundEven (y / ulp y)" by (rule roundEven_mono)
    then have "of_int (roundEven (x / ulp y)) * ulp y \<le> of_int (roundEven (y / ulp y)) * ulp y"
      using ulp_pos [of y] by (intro mult_right_mono) simp_all
    then show ?thesis unfolding rnd_pos_eq [OF assms(1)] rnd_pos_eq [OF y] u .
  next
    case False
    with le have lt: "expo x + 1 \<le> expo y" by simp
    then have "emin < expo y" using expo_ge [of x] by linarith
    then have "\<lfloor>log 2 \<bar>y\<bar>\<rfloor> = expo y" by (simp add: expo_def max_def split: if_splits)
    then have "2 powi (expo y) \<le> \<bar>y\<bar>" using y floor_log2_eq [of "\<bar>y\<bar>" "expo y"] by simp
    moreover have "(2::real) powi emin \<le> 2 powi (expo y)"
      using expo_ge [of y] by (intro power_int_increasing) simp_all
    ultimately have "2 powi emin \<le> y" using y by simp
    then have "2 powi (expo y) \<le> rnd y" by (rule rnd_lower)
    moreover have "rnd x \<le> 2 powi (expo x + 1)" using assms(1) by (rule rnd_upper)
    moreover have "(2::real) powi (expo x + 1) \<le> 2 powi (expo y)"
      using lt by (intro power_int_increasing) simp_all
    ultimately show ?thesis by linarith
  qed
qed

lemma rnd_mono:
  assumes "x \<le> y"
  shows "rnd x \<le> rnd y"
proof -
  consider "0 < x" | "x \<le> 0" "0 \<le> y" | "y < 0" by linarith
  then show ?thesis
  proof cases
    case 1
    then show ?thesis using assms by (rule rnd_mono_pos)
  next
    case 2
    have "rnd x \<le> 0" using rnd_nonneg [of "- x"] 2(1) by (simp add: rnd_minus)
    moreover have "0 \<le> rnd y" using 2(2) by (rule rnd_nonneg)
    ultimately show ?thesis by linarith
  next
    case 3
    then have "rnd (- y) \<le> rnd (- x)" using assms by (intro rnd_mono_pos) simp_all
    then show ?thesis by (simp add: rnd_minus)
  qed
qed

lemma rnd_exact:
  assumes "\<bar>x\<bar> / ulp x = of_int k"
  shows "rnd x = x"
proof -
  have "of_int k * ulp x = \<bar>x\<bar>" using assms ulp_pos [of x] by (simp add: field_simps)
  then show ?thesis
    unfolding rnd_def assms roundEven_of_int by (simp add: sgn_mult_abs)
qed

lemma two_powi_le_D: "(2::real) powi a \<le> 2 powi b \<Longrightarrow> a \<le> b"
proof (rule ccontr)
  assume "(2::real) powi a \<le> 2 powi b" and "\<not> a \<le> b"
  then have "b < a" by simp
  then have "(2::real) powi b < 2 powi a" by (intro power_int_strict_increasing) simp_all
  with \<open>(2::real) powi a \<le> 2 powi b\<close> show False by linarith
qed

lemma rnd_of_int:
  assumes "\<bar>n\<bar> \<le> 2 ^ 53"
  shows "rnd (of_int n) = of_int n"
proof (cases "n = 0")
  case True
  then show ?thesis by (simp add: rnd_0)
next
  case False
  let ?x = "of_int n :: real"
  let ?e = "expo ?x"
  have x: "?x \<noteq> 0" using False by simp
  have ax: "\<bar>?x\<bar> = of_int \<bar>n\<bar>" by simp
  have "1 \<le> \<bar>n\<bar>" using False by simp
  then have "(1::real) \<le> of_int \<bar>n\<bar>" by (simp only: of_int_1_le_iff)
  then have one: "1 \<le> \<bar>?x\<bar>" by (simp only: ax)
  have "(2::real) powi emin \<le> 2 powi 0"
    by (intro power_int_increasing) (simp_all add: emin_def)
  with one have m: "2 powi emin \<le> \<bar>?x\<bar>" by simp
  then have lo: "2 powi ?e \<le> \<bar>?x\<bar>" by (rule expo_lower)
  have up: "\<bar>?x\<bar> < 2 powi (?e + 1)" using x by (rule expo_upper)
  from one up have "(2::real) powi 0 < 2 powi (?e + 1)" by simp
  then have "0 < ?e + 1" by (rule two_powi_less_D)
  then have e0: "0 \<le> ?e" by simp
  have "(of_int \<bar>n\<bar> :: real) \<le> of_int (2 ^ 53)" using assms by (simp only: of_int_le_iff)
  then have top: "\<bar>?x\<bar> \<le> 2 powi 53" unfolding ax by simp
  show ?thesis
  proof (cases "?e \<le> 52")
    case True
    have "(2::real) powi (52 - ?e) = of_int (2 ^ nat (52 - ?e))"
      using True by (simp add: power_int_nonneg_exp)
    moreover have "\<bar>?x\<bar> / ulp ?x = \<bar>?x\<bar> * 2 powi (52 - ?e)"
      by (simp add: ulp_def power_int_diff field_simps)
    ultimately have "\<bar>?x\<bar> / ulp ?x = of_int (\<bar>n\<bar> * 2 ^ nat (52 - ?e))"
      unfolding ax by simp
    then show ?thesis by (rule rnd_exact)
  next
    case False
    have "(2::real) powi ?e \<le> 2 powi 53" using lo top by linarith
    then have "?e \<le> 53" by (rule two_powi_le_D)
    with False have e: "?e = 53" by simp
    from lo top have "\<bar>?x\<bar> = 2 powi 53" unfolding e by linarith
    moreover have "ulp ?x = 2" by (simp add: ulp_def e)
    ultimately have "\<bar>?x\<bar> / ulp ?x = of_int (2 ^ 52)" by simp
    then show ?thesis by (rule rnd_exact)
  qed
qed

lemma rnd_eval:
  assumes "x \<noteq> 0" and "emin \<le> e" and "2 powi e \<le> \<bar>x\<bar>" and "\<bar>x\<bar> < 2 powi (e + 1)"
  shows "rnd x = sgn x * (of_int (roundEven (\<bar>x\<bar> / 2 powi (e - 52))) * 2 powi (e - 52))"
  by (simp add: rnd_def ulp_def expo_eq [OF assms])

lemma huge_pos: "0 < huge"
  by (simp add: huge_def)

lemma small_less_huge: "x \<le> 2 ^ 53 \<Longrightarrow> x < huge"
proof -
  assume "x \<le> 2 ^ 53"
  moreover have "(2::real) ^ 53 < 2 ^ 1024" by (rule power_strict_increasing) simp_all
  ultimately show ?thesis by (simp only: huge_def)
qed

lemma toDouble_Fin: "rnd x = r \<Longrightarrow> - huge < r \<Longrightarrow> r < huge \<Longrightarrow> toDouble x = Fin r"
  by (simp add: toDouble_def)

lemma toDouble_of_int:
  assumes "\<bar>n\<bar> \<le> 2 ^ 53"
  shows "toDouble (of_int n) = Fin (of_int n)"
proof (rule toDouble_Fin)
  show "rnd (of_int n) = of_int n" using assms by (rule rnd_of_int)
  have "(of_int \<bar>n\<bar> :: real) \<le> of_int (2 ^ 53)" using assms by (simp only: of_int_le_iff)
  then have a: "\<bar>of_int n :: real\<bar> \<le> 2 ^ 53" by simp
  then have "(of_int n :: real) \<le> 2 ^ 53" and "- (of_int n :: real) \<le> 2 ^ 53" by linarith+
  then have "(of_int n :: real) < huge" and "- (of_int n :: real) < huge"
    by (simp_all only: small_less_huge)
  then show "- huge < (of_int n :: real)" and "(of_int n :: real) < huge" by linarith+
qed

lemma toDouble_0: "toDouble 0 = Fin 0"
  using toDouble_of_int [of 0] by simp

lemma toDouble_1: "toDouble 1 = Fin 1"
  using toDouble_of_int [of 1] by simp

lemma toDouble_numeral:
  "numeral k \<le> (9007199254740992::int) \<Longrightarrow> toDouble (numeral k) = Fin (numeral k)"
  using toDouble_of_int [of "numeral k"] by simp

lemma toDouble_half: "toDouble (1 / 2) = Fin (1 / 2)"
proof (rule toDouble_Fin)
  show "rnd (1 / 2) = 1 / 2"
    by (subst rnd_eval [where e = "- 1"]) (simp_all add: emin_def roundEven_def)
  show "- huge < 1 / 2" using huge_pos by linarith
  show "1 / 2 < huge" by (rule small_less_huge) simp
qed

lemma toDouble_not_NaN: "toDouble x \<noteq> NaN"
  by (simp add: toDouble_def Let_def)

lemma toDouble_mono:
  assumes "x \<le> y"
  shows "js_le (toDouble x) (toDouble y)"
  using rnd_mono [OF assms] huge_pos by (auto simp: toDouble_def Let_def)

lemma toDouble_within:
  assumes "lo \<le> x" and "x \<le> hi" and "rnd lo = lo" and "rnd hi = hi"
    and "- huge < lo" and "hi < huge"
  shows "\<exists>r. toDouble x = Fin r \<and> lo \<le> r \<and> r \<le> hi"
proof -
  have "lo \<le> rnd x" using rnd_mono [OF assms(1)] assms(3) by simp
  moreover have "rnd x \<le> hi" using rnd_mono [OF assms(2)] assms(4) by simp
  ultimately show ?thesis using assms(5,6) by (simp add: toDouble_def Let_def)
qed

lemma rnd_ge_min:
  assumes "2 powi emin \<le> x"
  shows "2 powi emin \<le> rnd x"
proof -
  have "(2::real) powi emin \<le> 2 powi (expo x)"
    using expo_ge [of x] by (intro power_int_increasing) simp_all
  also have "\<dots> \<le> rnd x" using assms by (rule rnd_lower)
  finally show ?thesis .
qed

subsection \<open>Arithmetic of percentages\<close>

lemma rnd_1: "rnd 1 = 1"
  using rnd_of_int [of 1] by simp

lemma rnd_100: "rnd 100 = 100"
  using rnd_of_int [of 100] by simp

lemma toDouble_unit:
  assumes "0 \<le> x" and "x \<le> 1"
  shows "\<exists>r. toDouble x = Fin r \<and> 0 \<le> r \<and> r \<le> 1"
proof (rule toDouble_within [OF assms rnd_0 rnd_1])
  show "- huge < 0" using huge_pos by simp
  show "1 < huge" by (rule small_less_huge) simp
qed

lemma toDouble_hundred:
  assumes "0 \<le> x" and "x \<le> 100"
  shows "\<exists>r. toDouble x = Fin r \<and> 0 \<le> r \<and> r \<le> 100"
proof (rule toDouble_within [OF assms rnd_0 rnd_100])
  show "- huge < 0" using huge_pos by simp
  show "100 < huge" by (rule small_less_huge) simp
qed

lemma percent_eq:
  "0 < d \<Longrightarrow> percent p d = js_mul (toDouble (real p / real d)) (Fin 100)"
  by (simp add: percent_def)

lemma percent_range:
  assumes "p \<le> d" and "0 < d"
  shows "is_percentage (percent p d)"
proof -
  have "0 \<le> real p / real d" by simp
  moreover have "real p / real d \<le> 1" using assms by (simp add: divide_le_eq_1)
  ultimately obtain r where r: "toDouble (real p / real d) = Fin r" "0 \<le> r" "r \<le> 1"
    using toDouble_unit by blast
  have "0 \<le> r * 100" using r(2) by simp
  moreover have "r * 100 \<le> 1 * 100" using r(3) by (rule mult_right_mono) simp
  then have "r * 100 \<le> 100" by (simp only: mult_1)
  ultimately obtain q where q: "toDouble (r * 100) = Fin q" "0 \<le> q" "q \<le> 100"
    using toDouble_hundred by blast
  have "percent p d = Fin q"
    unfolding percent_eq [OF assms(2)] r(1) using q(1) by simp
  with q(2,3) show ?thesis by simp
qed

subsection \<open>Attendance rate\<close>

lemma foldl_plus_sum_list:
  "foldl (\<lambda>total r. total + f r) (n::nat) xs = n + sum_list (map f xs)"
  by (induction xs arbitrary: n) simp_all

lemma length_filter_concat:
  "length (filter P (concat xss)) = sum_list (map (\<lambda>xs. length (filter P xs)) xss)"
  by (induction xss) simp_all

lemma present_fold:
  "foldl (\<lambda>total r. total + length (filter (\<lambda>s. status s = ''present'') (students r)))
     0 attendance
   = presentMarkings attendance"
  by (simp add: foldl_plus_sum_list presentMarkings_def length_filter_concat comp_def)

lemma calculateAverageAttendance_Cons:
  "calculateAverageAttendance (a # as) =
     percent (presentMarkings (a # as)) (length (a # as) * length (students a))"
  unfolding calculateAverageAttendance_def list.case Let_def present_fold percent_def ..

lemma presentMarkings_le:
  "\<forall>r\<in>set attendance. length (students r) \<le> m \<Longrightarrow>
   presentMarkings attendance \<le> length attendance * m"
proof (induction attendance)
  case Nil
  then show ?case by (simp add: presentMarkings_def)
next
  case (Cons r rs)
  have "length (filter (\<lambda>m. status m = ''present'') (students r)) \<le> m"
    using Cons.prems by (meson le_trans length_filter_le list.set_intros(1))
  moreover have "presentMarkings rs \<le> length rs * m"
    using Cons by simp
  ultimately show ?case by (simp add: presentMarkings_def)
qed

text \<open>
  Claim C4, as the code has it. The rate divides by the number of sessions times the size
  of the first session's student list, so it is a percentage between 0 and 100 when the
  sequence is empty, or when the first session's list is not empty and no session has a
  longer list than the first (as when all sessions share one roster).
\<close>

theorem attendance_percentage:
  assumes "attendance = [] \<or>
           (students (hd attendance) \<noteq> [] \<and>
            (\<forall>r\<in>set attendance. length (students r) \<le> length (students (hd attendance))))"
  shows "is_percentage (calculateAverageAttendance attendance)"
proof (cases attendance)
  case Nil
  then show ?thesis by (simp add: calculateAverageAttendance_def)
next
  case (Cons a as)
  let ?p = "presentMarkings (a # as)"
  let ?d = "length (a # as) * length (students a)"
  from assms Cons have ne: "students a \<noteq> []"
    and le: "\<forall>r\<in>set (a # as). length (students r) \<le> length (students a)"
    by simp_all
  have pd: "?p \<le> ?d" using presentMarkings_le [OF le] .
  have dpos: "0 < ?d" using ne by simp
  have "calculateAverageAttendance (a # as) = percent ?p ?d"
    by (rule calculateAverageAttendance_Cons)
  moreover have "is_percentage (percent ?p ?d)" using pd dpos by (rule percent_range)
  ultimately show ?thesis unfolding Cons by (simp only:)
qed

theorem attendance_percentage_witness:
  "students (hd twoSessions) \<noteq> [] \<and>
   map (\<lambda>r. length (students r)) twoSessions = [2, 2] \<and>
   is_percentage (calculateAverageAttendance twoSessions)"
proof -
  have h: "twoSessions = [] \<or>
           (students (hd twoSessions) \<noteq> [] \<and>
            (\<forall>r\<in>set twoSessions. length (students r) \<le> length (students (hd twoSessions))))"
    by (simp add: twoSessions_def)
  have "students (hd twoSessions) \<noteq> []"
    and "map (\<lambda>r. length (students r)) twoSessions = [2, 2]"
    by (simp_all add: twoSessions_def)
  with attendance_percentage [OF h] show ?thesis by blast
qed

text \<open>
  Claim C4 as stated fails: when a later session has more students than the first, the
  rate exceeds 100. One present student in the first session and three in the second give
  4 / (2 * 1) * 100 = 200.
\<close>

theorem attendance_percentage_counterexample:
  "calculateAverageAttendance growingRoster = Fin 200 \<and>
   \<not> is_percentage (calculateAverageAttendance growingRoster)"
  by (simp add: growingRoster_def calculateAverageAttendance_def toDouble_numeral)

text \<open>
  Claim C5. The empty sequence gives exactly 0. A non-empty sequence gives the number of
  markings whose status is exactly \<^verbatim>\<open>present\<close>, divided by the number of sessions
  times the length of the first session's student list, times 100, the division and the
  multiplication being JavaScript's.
\<close>

theorem attendance_formula:
  "calculateAverageAttendance [] = Fin 0 \<and>
   (attendance \<noteq> [] \<longrightarrow>
      calculateAverageAttendance attendance =
        js_mul (js_div (Fin (real (presentMarkings attendance)))
                       (Fin (real (length attendance * length (students (hd attendance))))))
               (Fin 100))"
proof (cases attendance)
  case Nil
  then show ?thesis by (simp add: calculateAverageAttendance_def)
next
  case (Cons a as)
  have e: "calculateAverageAttendance [] = Fin 0"
    by (simp add: calculateAverageAttendance_def)
  have g: "calculateAverageAttendance (a # as) =
             percent (presentMarkings (a # as)) (length (a # as) * length (students a))"
    by (rule calculateAverageAttendance_Cons)
  from e g show ?thesis unfolding Cons percent_def by (simp only: list.sel) blast
qed

lemma rnd_11_20: "rnd (11 / 20) = 2476979795053773 / 2 ^ 52"
  by (subst rnd_eval [where e = "- 1"]) (simp_all add: emin_def roundEven_def)

lemma rnd_55: "rnd (2476979795053773 / 2 ^ 52 * 100) = 7740561859543041 / 2 ^ 47"
  by (subst rnd_eval [where e = "5"]) (simp_all add: emin_def roundEven_def)

lemma percent_11_20: "percent 11 20 = Fin (7740561859543041 / 2 ^ 47)"
proof -
  have "toDouble (11 / 20) = Fin (2476979795053773 / 2 ^ 52)"
    using rnd_11_20 by (rule toDouble_Fin) (simp_all add: huge_def)
  moreover have "toDouble (2476979795053773 / 2 ^ 52 * 100) = Fin (7740561859543041 / 2 ^ 47)"
    using rnd_55 by (rule toDouble_Fin) (simp_all add: huge_def)
  ultimately show ?thesis by (simp add: percent_def)
qed

theorem attendance_formula_witness:
  "twoSessions \<noteq> [] \<and> presentMarkings twoSessions = 2 \<and>
   calculateAverageAttendance twoSessions = Fin 50 \<and>
   elevenOfTwenty \<noteq> [] \<and> presentMarkings elevenOfTwenty = 11 \<and>
   calculateAverageAttendance elevenOfTwenty = Fin (7740561859543041 / 2 ^ 47)"
proof -
  have ne: "twoSessions \<noteq> []" by (simp add: twoSessions_def)
  have p: "presentMarkings twoSessions = 2"
    by (simp add: twoSessions_def presentMarkings_def)
  have d: "length twoSessions * length (students (hd twoSessions)) = 4"
    by (simp add: twoSessions_def)
  from attendance_formula [of twoSessions] ne
  have "calculateAverageAttendance twoSessions =
          js_mul (js_div (Fin (real (presentMarkings twoSessions)))
                         (Fin (real (length twoSessions * length (students (hd twoSessions))))))
                 (Fin 100)"
    by blast
  then have v: "calculateAverageAttendance twoSessions = Fin 50"
    unfolding p d by (simp add: toDouble_half toDouble_numeral)
  have ne': "elevenOfTwenty \<noteq> []" by (simp add: elevenOfTwenty_def)
  have p': "presentMarkings elevenOfTwenty = 11"
    by (simp add: elevenOfTwenty_def presentMarkings_def)
  have d': "length elevenOfTwenty * length (students (hd elevenOfTwenty)) = 20"
    by (simp add: elevenOfTwenty_def)
  from attendance_formula [of elevenOfTwenty] ne'
  have "calculateAverageAttendance elevenOfTwenty =
          js_mul (js_div (Fin (real (presentMarkings elevenOfTwenty)))
                         (Fin (real (length elevenOfTwenty
                                      * length (students (hd elevenOfTwenty))))))
                 (Fin 100)"
    by blast
  then have v': "calculateAverageAttendance elevenOfTwenty = Fin (7740561859543041 / 2 ^ 47)"
    unfolding p' d' using percent_11_20 by (simp only: percent_def of_nat_numeral)
  from ne p v ne' p' v' show ?thesis by blast
qed

subsection \<open>Score distribution\<close>

lemma toDouble_eval:
  assumes "x \<noteq> 0" and "emin \<le> e" and "2 powi e \<le> \<bar>x\<bar>" and "\<bar>x\<bar> < 2 powi (e + 1)"
    and "sgn x * (of_int (roundEven (\<bar>x\<bar> / 2 powi (e - 52))) * 2 powi (e - 52)) = r"
    and "- huge < r" and "r < huge"
  shows "toDouble x = Fin r"
proof (rule toDouble_Fin)
  show "rnd x = r" unfolding rnd_eval [OF assms(1-4)] by (rule assms(5))
qed (rule assms(6), rule assms(7))




lemma bucketTotal_categorize: "bucketTotal (categorize avg d) = Suc (bucketTotal d)"
  by (simp add: categorize_def bucketTotal_def)

lemma bucketTotal_foldl:
  "bucketTotal (foldl (\<lambda>d st. categorize (f st) d) d0 roster) = bucketTotal d0 + length roster"
  by (induction roster arbitrary: d0) (simp_all add: bucketTotal_categorize)

text \<open>
  Claim C1, evaluated on the code. With no assignments the list of scores of a student is
  empty, its sum 0 is divided by its length 0, and the average is NaN. No comparison with
  NaN holds, so the final \<^verbatim>\<open>else\<close> counts the student in the bucket
  \<^verbatim>\<open>81-100\<close>: for a roster of two students the distribution is not all zero.
\<close>

theorem no_assignments_top_bucket:
  "avgScore [] \<lparr>student_oid = ''A''\<rparr> = NaN \<and>
   generatePerformanceDistribution [] [\<lparr>student_oid = ''A''\<rparr>, \<lparr>student_oid = ''B''\<rparr>]
     = \<lparr>b_0_20 = 0, b_21_40 = 0, b_41_60 = 0, b_61_80 = 0, b_81_100 = 2\<rparr>"
  by (simp add: generatePerformanceDistribution_def avgScore_def scores_def categorize_def)











text \<open>
  Claim C9. Whatever the roster and the assignments, the five bucket counts add up to the
  number of students of the roster: the chain of comparisons ends in an unconditional
  \<^verbatim>\<open>else\<close>, so every student is counted once.
\<close>

theorem distribution_total:
  "b_0_20 (generatePerformanceDistribution assignments roster)
   + b_21_40 (generatePerformanceDistribution assignments roster)
   + b_41_60 (generatePerformanceDistribution assignments roster)
   + b_61_80 (generatePerformanceDistribution assignments roster)
   + b_81_100 (generatePerformanceDistribution assignments roster)
   = length roster"
  using bucketTotal_foldl [of "avgScore assignments"
      "\<lparr>b_0_20 = 0, b_21_40 = 0, b_41_60 = 0, b_61_80 = 0, b_81_100 = 0\<rparr>" roster]
  by (simp add: generatePerformanceDistribution_def bucketTotal_def)

subsection \<open>Completion rate\<close>

lemma foldl_nested_concat:
  "foldl (\<lambda>acc a. foldl f acc (g a)) acc xs = foldl f acc (concat (map g xs))"
  by (induction xs arbitrary: acc) simp_all

lemma studentCompletions_flat:
  "studentCompletions assignments = foldl countSubmission [] (allSubmissions assignments)"
  by (simp add: studentCompletions_def allSubmissions_def foldl_nested_concat)

lemma map_of_countSubmission:
  "map_of (countSubmission sc sub) k =
     (if student sub = k then Some (tally sc k + 1) else map_of sc k)"
  by (simp add: countSubmission_def update_conv' tally_def)

lemma keys_countSubmission:
  "fst ` set (countSubmission sc sub) = insert (student sub) (fst ` set sc)"
  by (simp add: countSubmission_def dom_update)

lemma distinct_countSubmission:
  "distinct (map fst sc) \<Longrightarrow> distinct (map fst (countSubmission sc sub))"
  by (simp add: countSubmission_def distinct_update)

lemma keys_foldl:
  "fst ` set (foldl countSubmission sc subs) = fst ` set sc \<union> student ` set subs"
  by (induction subs arbitrary: sc) (auto simp: keys_countSubmission)

lemma distinct_foldl:
  "distinct (map fst sc) \<Longrightarrow> distinct (map fst (foldl countSubmission sc subs))"
  by (induction subs arbitrary: sc) (simp_all add: distinct_countSubmission)

lemma tally_countSubmission:
  "tally (countSubmission sc sub) k = tally sc k + (if student sub = k then 1 else 0)"
  by (simp add: tally_def map_of_countSubmission)

lemma tally_foldl:
  "tally (foldl countSubmission sc subs) k
     = tally sc k + length (filter (\<lambda>s. student s = k) subs)"
  by (induction subs arbitrary: sc) (simp_all add: tally_countSubmission)

lemma keys_studentCompletions:
  "set (map fst (studentCompletions assignments)) = student ` set (allSubmissions assignments)"
  by (simp add: studentCompletions_flat keys_foldl)

lemma distinct_studentCompletions:
  "distinct (map fst (studentCompletions assignments))"
  by (simp add: studentCompletions_flat distinct_foldl)

lemma tally_studentCompletions:
  "tally (studentCompletions assignments) k = submissionCount assignments k"
  unfolding studentCompletions_flat tally_foldl submissionCount_def
  by (simp add: tally_def)

lemma map_snd_tally:
  "distinct (map fst al) \<Longrightarrow> map snd al = map (tally al) (map fst al)"
proof (induction al)
  case Nil
  then show ?case by simp
next
  case (Cons p al)
  obtain k v where p: "p = (k, v)" by (cases p)
  from Cons.prems p have notin: "k \<notin> fst ` set al" and d: "distinct (map fst al)"
    by simp_all
  have "map (tally ((k, v) # al)) (map fst al) = map (tally al) (map fst al)"
    using notin by (intro map_cong) (auto simp: tally_def)
  with Cons.IH [OF d] show ?case by (simp add: p tally_def)
qed

lemma values_studentCompletions:
  "map snd (studentCompletions assignments)
     = map (submissionCount assignments) (map fst (studentCompletions assignments))"
  using map_snd_tally [OF distinct_studentCompletions, of assignments]
  by (simp add: tally_studentCompletions [abs_def])

lemma calculateAssignmentCompletion_percent:
  "calculateAssignmentCompletion assignments roster =
     map (\<lambda>k. percent (submissionCount assignments k) (length assignments))
         (map fst (studentCompletions assignments))"
  unfolding calculateAssignmentCompletion_def Let_def values_studentCompletions
  by (simp add: percent_def)

lemma submissionCount_pos:
  "k \<in> student ` set (allSubmissions assignments) \<Longrightarrow> 0 < submissionCount assignments k"
  by (auto simp: submissionCount_def filter_empty_conv)

text \<open>
  Claim C2 as stated fails: nothing in the loop looks for an earlier submission of the
  same student to the same assignment. A student who submitted the one assignment twice
  gets 2 / 1 * 100 = 200, not the 100 that the later submission alone gives.
\<close>

theorem duplicates_counterexample:
  "calculateAssignmentCompletion duplicated rosterAB = [Fin 200] \<and>
   calculateAssignmentCompletion lastOnly rosterAB = [Fin 100] \<and>
   calculateAssignmentCompletion duplicated rosterAB
     \<noteq> calculateAssignmentCompletion lastOnly rosterAB"
  by (simp add: calculateAssignmentCompletion_def studentCompletions_def countSubmission_def
      duplicated_def lastOnly_def toDouble_numeral toDouble_1)

text \<open>
  Claim C2, as the code has it. Every submission record adds one to the counter of its
  student, duplicates included: the counter of a student is the number of submission
  records that name the student over all assignments, a student without any has no key,
  and the result lists, for the keys in the order of their creation, that number divided
  by the number of assignments, times 100.
\<close>

theorem every_submission_counted:
  "map_of (studentCompletions assignments) k =
     (if k \<in> student ` set (allSubmissions assignments)
      then Some (submissionCount assignments k) else None) \<and>
   calculateAssignmentCompletion assignments roster =
     map (\<lambda>k. percent (submissionCount assignments k) (length assignments))
         (map fst (studentCompletions assignments))"
proof -
  have "map_of (studentCompletions assignments) k = None"
    if "k \<notin> student ` set (allSubmissions assignments)"
    using that keys_studentCompletions [of assignments]
    by (metis map_of_eq_None_iff set_map)
  moreover have "map_of (studentCompletions assignments) k
                   = Some (submissionCount assignments k)"
    if "k \<in> student ` set (allSubmissions assignments)"
  proof -
    from that have "map_of (studentCompletions assignments) k \<noteq> None"
      using keys_studentCompletions [of assignments]
      by (metis map_of_eq_None_iff set_map)
    then obtain c where c: "map_of (studentCompletions assignments) k = Some c" by blast
    then have "tally (studentCompletions assignments) k = c" by (simp add: tally_def)
    with c show ?thesis by (simp add: tally_studentCompletions)
  qed
  ultimately show ?thesis
    using calculateAssignmentCompletion_percent [of assignments roster] by simp
qed

theorem every_submission_counted_witness:
  "map_of (studentCompletions duplicated) ''A'' = Some 2 \<and>
   submissionCount duplicated ''A'' = 2 \<and>
   calculateAssignmentCompletion duplicated rosterAB = [percent 2 1]"
proof -
  have k: "map fst (studentCompletions duplicated) = [''A'']"
    by (simp add: studentCompletions_def countSubmission_def duplicated_def)
  have c: "submissionCount duplicated ''A'' = 2"
    by (simp add: submissionCount_def allSubmissions_def duplicated_def)
  have m: "''A'' \<in> student ` set (allSubmissions duplicated)"
    by (simp add: allSubmissions_def duplicated_def)
  have l: "length duplicated = 1" by (simp add: duplicated_def)
  from every_submission_counted [of duplicated "''A''" rosterAB] m
  have "map_of (studentCompletions duplicated) ''A'' = Some (submissionCount duplicated ''A'')"
    and "calculateAssignmentCompletion duplicated rosterAB =
           map (\<lambda>k. percent (submissionCount duplicated k) (length duplicated))
               (map fst (studentCompletions duplicated))"
    by simp_all
  then show ?thesis unfolding k l by (simp add: c)
qed

text \<open>
  Claim C6. The keys of the counter object are, without repetition, the students that
  some submission names, so the result has one entry for each student with at least one
  submission and none for the others (the roster is never read). For one assignment and
  the two students A and B, of whom only A submits, the result is the single entry 100.
\<close>

theorem one_entry_per_submitter:
  "distinct (map fst (studentCompletions assignments)) \<and>
   set (map fst (studentCompletions assignments)) = student ` set (allSubmissions assignments) \<and>
   length (calculateAssignmentCompletion assignments roster)
     = card (student ` set (allSubmissions assignments)) \<and>
   studentCompletions onlyA = [(''A'', 1)] \<and>
   calculateAssignmentCompletion onlyA rosterAB = [Fin 100]"
proof -
  have "length (calculateAssignmentCompletion assignments roster)
          = length (map fst (studentCompletions assignments))"
    by (simp add: calculateAssignmentCompletion_def)
  also have "\<dots> = card (set (map fst (studentCompletions assignments)))"
    using distinct_studentCompletions [of assignments] by (rule distinct_card [symmetric])
  finally have "length (calculateAssignmentCompletion assignments roster)
          = card (student ` set (allSubmissions assignments))"
    unfolding keys_studentCompletions .
  moreover have "studentCompletions onlyA = [(''A'', 1)]"
    by (simp add: studentCompletions_def countSubmission_def onlyA_def)
  moreover have "calculateAssignmentCompletion onlyA rosterAB = [Fin 100]"
    by (simp add: calculateAssignmentCompletion_def studentCompletions_def
        countSubmission_def onlyA_def toDouble_numeral toDouble_1)
  ultimately show ?thesis
    using distinct_studentCompletions keys_studentCompletions by blast
qed

lemma js_le_PosInf: "x \<noteq> NaN \<Longrightarrow> js_le x PosInf"
  by (cases x) simp_all

lemma js_mul_100_mono:
  assumes "js_le a b" and "js_le (Fin 0) a"
  shows "js_le (js_mul a (Fin 100)) (js_mul b (Fin 100))"
proof (cases a)
  case (Fin ra)
  show ?thesis
  proof (cases b)
    case (Fin rb)
    with assms(1) \<open>a = Fin ra\<close> have "ra * 100 \<le> rb * 100" by simp
    then show ?thesis
      unfolding \<open>a = Fin ra\<close> Fin by (simp add: toDouble_mono)
  next
    case PosInf
    then show ?thesis
      unfolding \<open>a = Fin ra\<close> by (simp add: js_le_PosInf toDouble_not_NaN)
  next
    case NegInf
    with assms(1) \<open>a = Fin ra\<close> show ?thesis by simp
  next
    case NaN
    with assms(1) \<open>a = Fin ra\<close> show ?thesis by simp
  qed
next
  case PosInf
  with assms(1) have "b = PosInf" by (cases b) simp_all
  with PosInf show ?thesis by simp
next
  case NegInf
  with assms(2) show ?thesis by simp
next
  case NaN
  with assms(2) show ?thesis by simp
qed

lemma percent_mono:
  assumes "0 < n" and "c \<le> c'"
  shows "js_le (percent c n) (percent c' n)"
proof -
  have "real c / real n \<le> real c' / real n"
    using assms by (simp add: divide_right_mono)
  then have le: "js_le (toDouble (real c / real n)) (toDouble (real c' / real n))"
    by (rule toDouble_mono)
  have "(0::real) \<le> real c / real n" by simp
  then have "js_le (toDouble 0) (toDouble (real c / real n))" by (rule toDouble_mono)
  then have nn: "js_le (Fin 0) (toDouble (real c / real n))" by (simp only: toDouble_0)
  show ?thesis
    unfolding percent_eq [OF assms(1)] using le nn by (rule js_mul_100_mono)
qed

lemma percent_one_pos:
  assumes "0 < n" and "n < 2 ^ 32"
  shows "\<exists>r. percent 1 n = Fin r \<and> 0 < r"
proof -
  let ?m = "(2::real) powi emin"
  have mpos: "0 < ?m" by simp
  have "?m \<le> 2 powi (- 32)" by (intro power_int_increasing) (simp_all add: emin_def)
  also have "\<dots> = 1 / 2 ^ 32" by (simp add: power_int_minus_divide)
  also have "\<dots> \<le> 1 / real n"
  proof (rule divide_left_mono)
    have "real n \<le> real (2 ^ 32)" using assms(2) by (simp only: of_nat_le_iff less_imp_le)
    then show "real n \<le> 2 ^ 32" by simp
    show "(0::real) \<le> 1" by simp
    show "0 < 2 ^ 32 * real n" using assms(1) by simp
  qed
  finally have lo: "?m \<le> 1 / real n" .
  have hi: "1 / real n \<le> 1" using assms(1) by simp
  have "?m \<le> rnd (1 / real n)" using lo by (rule rnd_ge_min)
  moreover have "rnd (1 / real n) \<le> 1" using rnd_mono [OF hi] by (simp only: rnd_1)
  moreover have "(1::real) < huge" by (rule small_less_huge) simp
  ultimately obtain q where q: "toDouble (1 / real n) = Fin q" "?m \<le> q" "q \<le> 1"
    using mpos huge_pos by (simp add: toDouble_def Let_def)
  have q0: "0 \<le> q" using q(2) mpos by linarith
  then have "q * 1 \<le> q * 100" by (intro mult_left_mono) simp_all
  with q(2) have lo': "?m \<le> q * 100" by linarith
  have "q * 100 \<le> 1 * 100" using q(3) by (rule mult_right_mono) simp
  then have hi': "q * 100 \<le> 100" by (simp only: mult_1)
  have "?m \<le> rnd (q * 100)" using lo' by (rule rnd_ge_min)
  moreover have "rnd (q * 100) \<le> 100" using rnd_mono [OF hi'] by (simp only: rnd_100)
  moreover have "(100::real) < huge" by (rule small_less_huge) simp
  ultimately obtain r where r: "toDouble (q * 100) = Fin r" "?m \<le> r"
    using mpos huge_pos by (simp add: toDouble_def Let_def)
  have "percent 1 n = Fin r"
    using percent_eq [OF assms(1), of 1] q(1) r(1) by simp
  moreover have "0 < r" using r(2) mpos by linarith
  ultimately show ?thesis by blast
qed

lemma percent_1_3: "percent 1 3 = Fin (4691249611844266 / 2 ^ 47)"
proof -
  have "toDouble (1 / 3) = Fin (6004799503160661 / 2 ^ 54)"
    by (rule toDouble_eval [where e = "- 2"]) (simp_all add: emin_def roundEven_def huge_def)
  moreover have "toDouble (6004799503160661 / 2 ^ 54 * 100) = Fin (4691249611844266 / 2 ^ 47)"
    by (rule toDouble_eval [where e = 5]) (simp_all add: emin_def roundEven_def huge_def)
  ultimately show ?thesis by (simp add: percent_def)
qed

lemma completion_oneOfThree:
  "calculateAssignmentCompletion oneOfThree rosterAB = [percent 1 3]"
proof -
  have k: "map fst (studentCompletions oneOfThree) = [''A'']"
    by (simp add: studentCompletions_def countSubmission_def oneOfThree_def)
  have c: "submissionCount oneOfThree ''A'' = 1"
    by (simp add: submissionCount_def allSubmissions_def oneOfThree_def)
  have l: "length oneOfThree = 3" by (simp add: oneOfThree_def)
  show ?thesis
    unfolding calculateAssignmentCompletion_percent k l by (simp add: c)
qed

text \<open>
  Claim C10 as stated fails in its lower bound: for one submission and three assignments
  the code emits \<^verbatim>\<open>(1 / 3) * 100\<close>, which JavaScript rounds to
  \<^verbatim>\<open>33.33333333333333\<close>, a double below the real number 1 divided by 3, times 100.
\<close>

theorem completion_bound_counterexample:
  "calculateAssignmentCompletion oneOfThree rosterAB = [Fin (4691249611844266 / 2 ^ 47)] \<and>
   4691249611844266 / 2 ^ 47 < 1 / real (length oneOfThree) * (100::real)"
  unfolding completion_oneOfThree percent_1_3 by (simp add: oneOfThree_def)

text \<open>
  Claim C10, as the code has it. For a non-empty array of assignments (an array has fewer
  than \<open>2^32\<close> elements) the value JavaScript computes for \<^verbatim>\<open>(1 / n) * 100\<close>,
  \<open>n\<close> the number of assignments, is a finite number strictly greater than 0, and every
  percentage in the result is at least that value.
\<close>

theorem completion_positive:
  assumes "assignments \<noteq> []" and "length assignments < 2 ^ 32"
  shows "\<exists>r. percent 1 (length assignments) = Fin r \<and> 0 < r \<and>
           (\<forall>p\<in>set (calculateAssignmentCompletion assignments roster). js_le (Fin r) p)"
proof -
  let ?n = "length assignments"
  from assms(1) have n: "0 < ?n" by simp
  from percent_one_pos [OF n assms(2)]
  obtain r where r: "percent 1 ?n = Fin r" "0 < r" by blast
  have "js_le (Fin r) p" if "p \<in> set (calculateAssignmentCompletion assignments roster)" for p
  proof -
    from that obtain k where k: "k \<in> set (map fst (studentCompletions assignments))"
      and p: "p = percent (submissionCount assignments k) ?n"
      unfolding calculateAssignmentCompletion_percent by auto
    from k have "0 < submissionCount assignments k"
      unfolding keys_studentCompletions by (rule submissionCount_pos)
    then have "1 \<le> submissionCount assignments k" by simp
    with n have "js_le (percent 1 ?n) (percent (submissionCount assignments k) ?n)"
      by (rule percent_mono)
    then show ?thesis unfolding p r(1) .
  qed
  with r show ?thesis by blast
qed

theorem completion_positive_witness:
  "oneOfThree \<noteq> [] \<and> length oneOfThree < 2 ^ 32 \<and>
   calculateAssignmentCompletion oneOfThree rosterAB = [Fin (4691249611844266 / 2 ^ 47)] \<and>
   (\<exists>r. percent 1 (length oneOfThree) = Fin r \<and> 0 < r \<and>
        js_le (Fin r) (Fin (4691249611844266 / 2 ^ 47)))"
proof -
  have ne: "oneOfThree \<noteq> []" by (simp add: oneOfThree_def)
  have l: "length oneOfThree < 2 ^ 32" by (simp add: oneOfThree_def)
  have v: "calculateAssignmentCompletion oneOfThree rosterAB = [Fin (4691249611844266 / 2 ^ 47)]"
    unfolding completion_oneOfThree percent_1_3 ..
  then have "Fin (4691249611844266 / 2 ^ 47)
               \<in> set (calculateAssignmentCompletion oneOfThree rosterAB)"
    by simp
  with completion_positive [OF ne l, of rosterAB]
  have "\<exists>r. percent 1 (length oneOfThree) = Fin r \<and> 0 < r \<and>
             js_le (Fin r) (Fin (4691249611844266 / 2 ^ 47))"
    by blast
  with ne l v show ?thesis by blast
qed

subsection \<open>Weekly engagement\<close>

lemma forEachSubmission_append:
  "forEachSubmission clock (xs @ ys) st
     = forEachSubmission clock ys (forEachSubmission clock xs st)"
proof (induction xs arbitrary: st)
  case Nil
  then show ?case by simp
next
  case (Cons x xs)
  then show ?case by (cases st) simp
qed

lemma forEachAssignment_flat:
  "forEachAssignment clock as st = forEachSubmission clock (allSubmissions as) st"
  by (induction as arbitrary: st) (simp_all add: allSubmissions_def forEachSubmission_append)

lemma length_countWeek: "length (countWeek now sub wd) = length wd"
  by (simp add: countWeek_def Let_def)

lemma nth_increment:
  fixes w :: int and wd :: "nat list"
  assumes "length wd = 4" and "j < 4"
  shows "(if 0 \<le> w \<and> w < 4 then wd[nat w := wd ! nat w + 1] else wd) ! j
           = wd ! j + (if w = int j then 1 else 0)"
proof (cases "0 \<le> w \<and> w < 4")
  case True
  then have "nat w < length wd" unfolding assms(1) by linarith
  moreover from True have "(nat w = j) = (w = int j)" by auto
  ultimately show ?thesis using True by (auto simp: nth_list_update)
next
  case False
  then have "w \<noteq> int j" using assms(2) by auto
  with False show ?thesis by auto
qed

lemma nth_countWeek:
  assumes "length wd = 4" and "j < 4"
  shows "countWeek now sub wd ! j
           = wd ! j + (if (now - submittedAt sub) div week_ms = int j then 1 else 0)"
  unfolding countWeek_def Let_def using assms by (rule nth_increment)

lemma length_filter_upt_Suc:
  "length (filter P [0..<Suc n]) = (if P 0 then 1 else 0) + length (filter (\<lambda>i. P (Suc i)) [0..<n])"
proof -
  have "[0..<Suc n] = 0 # map Suc [0..<n]"
    by (simp add: upt_conv_Cons map_Suc_upt del: upt_Suc)
  then show ?thesis by (simp add: filter_map comp_def del: upt_Suc)
qed

lemma forEachSubmission_count:
  assumes "length wd = 4" and "j < 4"
  shows "length (snd (forEachSubmission clock subs (k, wd))) = 4 \<and>
         snd (forEachSubmission clock subs (k, wd)) ! j
           = wd ! j + length (filter
               (\<lambda>i. (clock (k + i) - submittedAt (subs ! i)) div week_ms = int j)
               [0..<length subs])"
  using assms
proof (induction subs arbitrary: k wd)
  case Nil
  then show ?case by simp
next
  case (Cons s ss)
  let ?wd = "countWeek (clock k) s wd"
  have l: "length ?wd = 4" using Cons.prems(1) by (simp add: length_countWeek)
  note ih = Cons.IH [OF l Cons.prems(2), of "Suc k"]
  have n: "?wd ! j = wd ! j + (if (clock k - submittedAt s) div week_ms = int j then 1 else 0)"
    using Cons.prems by (rule nth_countWeek)
  show ?case
    using ih unfolding n
    by (simp add: length_filter_upt_Suc del: upt_Suc)
qed

lemma list4: "length xs = 4 \<Longrightarrow> xs = [xs ! 0, xs ! 1, xs ! 2, xs ! 3]"
  by (auto simp: list_eq_iff_nth_eq nth_Cons' less_Suc_eq numeral_eq_Suc)

lemma calculateWeeklyEngagement_Some:
  "findById e courseId = Some assignments \<Longrightarrow>
   calculateWeeklyEngagement e courseId =
     Inr (rev (snd (forEachSubmission (newDate e) (allSubmissions (loaded e assignments))
                      (1, replicate 4 0))))"
  by (simp add: calculateWeeklyEngagement_def loaded_def forEachAssignment_flat)

lemma replicate4: "replicate 4 (0::nat) = [0, 0, 0, 0]"
  by (simp add: numeral_eq_Suc)

lemma week_ms_value: "week_ms = 604800000"
  by (simp add: week_ms_def)

lemma week_window:
  "(0 \<le> x div week_ms \<and> x div week_ms < 4) = (0 \<le> x \<and> x < 28 * 24 * 60 * 60 * 1000)"
proof -
  define q where "q = x div 604800000"
  define r where "r = x mod 604800000"
  have "x = 604800000 * q + r" and "0 \<le> r" and "r < 604800000"
    by (simp_all add: q_def r_def)
  then have "(0 \<le> q \<and> q < 4) = (0 \<le> x \<and> x < 2419200000)" by linarith
  then show ?thesis unfolding week_ms_value q_def by simp
qed

lemma calculateWeeklyEngagement_inWeek:
  assumes "findById e courseId = Some assignments"
    and "subs = allSubmissions (loaded e assignments)"
  shows "calculateWeeklyEngagement e courseId =
           Inr [inWeek (newDate e) subs 3, inWeek (newDate e) subs 2,
                inWeek (newDate e) subs 1, inWeek (newDate e) subs 0]"
proof -
  let ?wd = "snd (forEachSubmission (newDate e) subs (1, replicate 4 0))"
  have r: "length (replicate 4 (0::nat)) = 4" by simp
  have n: "?wd ! j = inWeek (newDate e) subs j" if "j < 4" for j
    using forEachSubmission_count [OF r that, of "newDate e" subs 1] that
    by (simp add: inWeek_def weekIndexOf_def)
  have l: "length ?wd = 4"
    using forEachSubmission_count [OF r, of 0 "newDate e" subs 1] by simp
  have e: "?wd ! 0 = inWeek (newDate e) subs 0" "?wd ! 1 = inWeek (newDate e) subs 1"
    "?wd ! 2 = inWeek (newDate e) subs 2" "?wd ! 3 = inWeek (newDate e) subs 3"
    by (rule n, simp)+
  have "?wd = [?wd ! 0, ?wd ! 1, ?wd ! 2, ?wd ! 3]" using l by (rule list4)
  also have "\<dots> = [inWeek (newDate e) subs 0, inWeek (newDate e) subs 1,
                     inWeek (newDate e) subs 2, inWeek (newDate e) subs 3]"
    by (simp only: e)
  finally have "rev ?wd = [inWeek (newDate e) subs 3, inWeek (newDate e) subs 2,
                           inWeek (newDate e) subs 1, inWeek (newDate e) subs 0]"
    by (simp only: rev.simps append.simps)
  then show ?thesis
    unfolding calculateWeeklyEngagement_Some [OF assms(1)] assms(2) [symmetric] by simp
qed

lemma length_filter_nth:
  "length (filter (\<lambda>i. P (xs ! i)) [0..<length xs]) = length (filter P xs)"
proof -
  have "filter P (map ((!) xs) [0..<length xs]) = filter P xs" by (simp only: map_nth)
  then have "length (filter P (map ((!) xs) [0..<length xs])) = length (filter P xs)" by simp
  then show ?thesis by (simp add: filter_map comp_def)
qed

lemma inWeek_steady:
  assumes "\<forall>i<length subs. clock (Suc i) = now"
  shows "inWeek clock subs k = atInstant now subs k"
proof -
  have "filter (\<lambda>i. weekIndexOf clock subs i = int k) [0..<length subs]
          = filter (\<lambda>i. weekIndexAt now (subs ! i) = int k) [0..<length subs]"
    using assms by (intro filter_cong) (simp_all add: weekIndexOf_def weekIndexAt_def)
  then have "inWeek clock subs k
          = length (filter (\<lambda>i. weekIndexAt now (subs ! i) = int k) [0..<length subs])"
    unfolding inWeek_def by (simp only:)
  also have "\<dots> = length (filter (\<lambda>s. weekIndexAt now s = int k) subs)"
    by (rule length_filter_nth)
  finally show ?thesis unfolding atInstant_def .
qed

lemma count_four:
  fixes f :: "'a \<Rightarrow> int"
  shows "length (filter (\<lambda>x. f x = 3) xs) + length (filter (\<lambda>x. f x = 2) xs)
           + length (filter (\<lambda>x. f x = 1) xs) + length (filter (\<lambda>x. f x = 0) xs)
         = length (filter (\<lambda>x. 0 \<le> f x \<and> f x < 4) xs)"
proof (induction xs)
  case Nil
  then show ?case by simp
next
  case (Cons x xs)
  consider "f x = 0" | "f x = 1" | "f x = 2" | "f x = 3" | "\<not> (0 \<le> f x \<and> f x < 4)"
    by linarith
  then show ?case using Cons.IH by cases auto
qed

lemma loaded_steady:
  "allSubmissions (loaded steadyEnv monthOfWork) = allSubmissions monthOfWork"
  by (simp add: loaded_def populateMatch_def steadyEnv_def fourWeeks_def monthOfWork_def)

lemma loaded_ticking:
  "allSubmissions (loaded tickingEnv sameInstant) = allSubmissions sameInstant"
  by (simp add: loaded_def populateMatch_def tickingEnv_def fourWeeks_def sameInstant_def)

lemma inWeek_steady_values:
  "inWeek (newDate steadyEnv) (allSubmissions monthOfWork) 0 = 1"
  "inWeek (newDate steadyEnv) (allSubmissions monthOfWork) 1 = 1"
  "inWeek (newDate steadyEnv) (allSubmissions monthOfWork) 2 = 1"
  "inWeek (newDate steadyEnv) (allSubmissions monthOfWork) 3 = 1"
  by (simp_all add: inWeek_def weekIndexOf_def week_ms_def steadyEnv_def
      allSubmissions_def monthOfWork_def upt_conv_Cons)

lemma inWeek_ticking_values:
  "inWeek (newDate tickingEnv) (allSubmissions sameInstant) 0 = 1"
  "inWeek (newDate tickingEnv) (allSubmissions sameInstant) 1 = 1"
  "inWeek (newDate tickingEnv) (allSubmissions sameInstant) 2 = 0"
  "inWeek (newDate tickingEnv) (allSubmissions sameInstant) 3 = 0"
  by (simp_all add: inWeek_def weekIndexOf_def week_ms_def tickingEnv_def
      allSubmissions_def sameInstant_def upt_conv_Cons)

text \<open>
  Claim C3 as stated fails: \<^verbatim>\<open>new Date()\<close> is evaluated inside the inner loop,
  once for every submission, and once more before the query. When the clock advances
  across a week boundary between two iterations, two submissions made at the same instant
  land in different buckets, which no single instant gives: each of the instants read
  during the call puts both into one bucket.
\<close>

theorem weekly_single_instant_counterexample:
  "calculateWeeklyEngagement tickingEnv ''c1'' = Inr [0, 0, 1, 1] \<and>
   trendAt (newDate tickingEnv 0) (allSubmissions (loaded tickingEnv sameInstant))
     = [0, 0, 0, 2] \<and>
   trendAt (newDate tickingEnv 1) (allSubmissions (loaded tickingEnv sameInstant))
     = [0, 0, 0, 2] \<and>
   trendAt (newDate tickingEnv 2) (allSubmissions (loaded tickingEnv sameInstant))
     = [0, 0, 2, 0]"
  unfolding loaded_ticking
  by (simp add: calculateWeeklyEngagement_def trendAt_def atInstant_def weekIndexAt_def
      populateMatch_def tickingEnv_def fourWeeks_def sameInstant_def allSubmissions_def
      countWeek_def week_ms_def replicate4)

text \<open>
  Claim C3, as the code has it. The clock is read once before the query and once more for
  every submission visited, and the week index of a submission is computed from the
  reading taken at that submission: the result lists, oldest week first, the numbers of
  submissions whose index so computed is 3, 2, 1 and 0. It is thereby a function of the
  submissions' timestamps and of the readings of the call, and it is the trend computed
  from one instant \<open>now\<close> whenever all the readings taken in the loop are that instant.
\<close>

theorem weekly_readings:
  assumes "findById e courseId = Some assignments"
    and "subs = allSubmissions (loaded e assignments)"
  shows "calculateWeeklyEngagement e courseId =
           Inr [inWeek (newDate e) subs 3, inWeek (newDate e) subs 2,
                inWeek (newDate e) subs 1, inWeek (newDate e) subs 0] \<and>
         ((\<forall>i<length subs. newDate e (Suc i) = now) \<longrightarrow>
            calculateWeeklyEngagement e courseId = Inr (trendAt now subs))"
proof -
  note r = calculateWeeklyEngagement_inWeek [OF assms]
  have "calculateWeeklyEngagement e courseId = Inr (trendAt now subs)"
    if "\<forall>i<length subs. newDate e (Suc i) = now"
    unfolding r trendAt_def by (simp only: inWeek_steady [OF that])
  with r show ?thesis by blast
qed

theorem weekly_readings_witness:
  "findById tickingEnv ''c1'' = Some sameInstant \<and>
   map (\<lambda>i. newDate tickingEnv (Suc i)) [0..<length (allSubmissions sameInstant)]
     = [9244799999, 9244800000] \<and>
   calculateWeeklyEngagement tickingEnv ''c1'' = Inr [0, 0, 1, 1] \<and>
   findById steadyEnv ''c1'' = Some monthOfWork \<and>
   map (\<lambda>i. newDate steadyEnv (Suc i)) [0..<length (allSubmissions monthOfWork)]
     = [8640000000, 8640000000, 8640000000, 8640000000, 8640000000, 8640000000] \<and>
   calculateWeeklyEngagement steadyEnv ''c1''
     = Inr (trendAt 8640000000 (allSubmissions monthOfWork)) \<and>
   trendAt 8640000000 (allSubmissions monthOfWork) = [1, 1, 1, 1]"
proof -
  have ft: "findById tickingEnv ''c1'' = Some sameInstant" by (simp add: tickingEnv_def)
  have mt: "map (\<lambda>i. newDate tickingEnv (Suc i)) [0..<length (allSubmissions sameInstant)]
              = [9244799999, 9244800000]"
    by (simp add: tickingEnv_def allSubmissions_def sameInstant_def upt_conv_Cons)
  from weekly_readings [OF ft loaded_ticking [symmetric]]
  have vt: "calculateWeeklyEngagement tickingEnv ''c1'' = Inr [0, 0, 1, 1]"
    unfolding inWeek_ticking_values by blast
  have fs: "findById steadyEnv ''c1'' = Some monthOfWork" by (simp add: steadyEnv_def)
  have ms: "map (\<lambda>i. newDate steadyEnv (Suc i)) [0..<length (allSubmissions monthOfWork)]
              = [8640000000, 8640000000, 8640000000, 8640000000, 8640000000, 8640000000]"
    by (simp add: steadyEnv_def allSubmissions_def monthOfWork_def)
  have st: "\<forall>i<length (allSubmissions monthOfWork). newDate steadyEnv (Suc i) = 8640000000"
    by (simp add: steadyEnv_def)
  from weekly_readings [OF fs loaded_steady [symmetric], of 8640000000] st
  have vs: "calculateWeeklyEngagement steadyEnv ''c1''
              = Inr (trendAt 8640000000 (allSubmissions monthOfWork))"
    by blast
  have tr: "trendAt 8640000000 (allSubmissions monthOfWork) = [1, 1, 1, 1]"
    by (simp add: trendAt_def atInstant_def weekIndexAt_def week_ms_def
        allSubmissions_def monthOfWork_def)
  from ft mt vt fs ms vs tr show ?thesis by blast
qed

text \<open>
  Claim C8 as stated fails where it takes one instant \<open>now\<close> for the call: the two
  submissions below were made at the same instant, so one \<open>now\<close> gives both the same
  week index and a trend whose entries are 0 or 2, whatever \<open>now\<close> is; the code, reading
  the clock at each of them, returns one submission in each of the last two weeks.
\<close>

theorem weekly_one_now_counterexample:
  "calculateWeeklyEngagement tickingEnv ''c1'' = Inr [0, 0, 1, 1] \<and>
   map submittedAt (allSubmissions (loaded tickingEnv sameInstant))
     = [8640000000, 8640000000] \<and>
   (\<forall>now. trendAt now (allSubmissions (loaded tickingEnv sameInstant)) \<noteq> [0, 0, 1, 1])"
proof -
  have "calculateWeeklyEngagement tickingEnv ''c1'' = Inr [0, 0, 1, 1]"
    by (simp add: calculateWeeklyEngagement_def populateMatch_def tickingEnv_def
        fourWeeks_def sameInstant_def countWeek_def week_ms_def replicate4)
  moreover have "map submittedAt (allSubmissions (loaded tickingEnv sameInstant))
     = [8640000000, 8640000000]"
    unfolding loaded_ticking by (simp add: allSubmissions_def sameInstant_def)
  moreover have "trendAt now (allSubmissions (loaded tickingEnv sameInstant)) \<noteq> [0, 0, 1, 1]"
    for now
    unfolding loaded_ticking
    by (simp add: trendAt_def atInstant_def weekIndexAt_def allSubmissions_def
        sameInstant_def)
  ultimately show ?thesis by blast
qed

text \<open>
  Claim C8, as the code has it. For every submission of the assignments the query loads,
  the week index is the floor of (t - submittedAt) / 7 days, \<open>t\<close> being the clock
  reading taken when that submission is visited. The result has four entries, and the
  entry at index \<open>3 - k\<close> is the number of submissions of index \<open>k\<close>, so that the oldest
  week comes first and the most recent last. An index lies in 0..3 exactly when the
  submission is, at its reading, neither in the future nor 28 days old or older; the four
  entries add up to the number of such submissions, so any other is counted nowhere.
\<close>

theorem weekly_buckets:
  assumes "findById e courseId = Some assignments"
    and "subs = allSubmissions (loaded e assignments)"
  shows "\<exists>wd. calculateWeeklyEngagement e courseId = Inr wd \<and> length wd = 4 \<and>
           (\<forall>k<4. wd ! (3 - k) = inWeek (newDate e) subs k) \<and>
           (\<forall>i<length subs.
              (0 \<le> weekIndexOf (newDate e) subs i \<and> weekIndexOf (newDate e) subs i < 4)
              = (0 \<le> ageOf (newDate e) subs i \<and>
                 ageOf (newDate e) subs i < 28 * 24 * 60 * 60 * 1000)) \<and>
           sum_list wd =
             length (filter (\<lambda>i. 0 \<le> ageOf (newDate e) subs i \<and>
                                  ageOf (newDate e) subs i < 28 * 24 * 60 * 60 * 1000)
                       [0..<length subs])"
proof -
  let ?c = "newDate e"
  let ?wd = "[inWeek ?c subs 3, inWeek ?c subs 2, inWeek ?c subs 1, inWeek ?c subs 0]"
  have res: "calculateWeeklyEngagement e courseId = Inr ?wd"
    using assms by (rule calculateWeeklyEngagement_inWeek)
  have len: "length ?wd = 4" by simp
  have nth: "\<forall>k<4. ?wd ! (3 - k) = inWeek ?c subs k"
  proof (intro allI impI)
    fix k :: nat
    assume "k < 4"
    then consider "k = 0" | "k = 1" | "k = 2" | "k = 3" by linarith
    then show "?wd ! (3 - k) = inWeek ?c subs k" by cases simp_all
  qed
  have win: "(0 \<le> weekIndexOf ?c subs i \<and> weekIndexOf ?c subs i < 4)
              = (0 \<le> ageOf ?c subs i \<and> ageOf ?c subs i < 28 * 24 * 60 * 60 * 1000)" for i
    unfolding weekIndexOf_def ageOf_def by (rule week_window)
  have "sum_list ?wd = length (filter (\<lambda>i. 0 \<le> weekIndexOf ?c subs i
                                  \<and> weekIndexOf ?c subs i < 4) [0..<length subs])"
    using count_four [of "weekIndexOf ?c subs" "[0..<length subs]"]
    by (simp add: inWeek_def)
  then have total: "sum_list ?wd =
             length (filter (\<lambda>i. 0 \<le> ageOf ?c subs i \<and>
                                  ageOf ?c subs i < 28 * 24 * 60 * 60 * 1000)
                       [0..<length subs])"
    by (simp only: win)
  from res len nth win total show ?thesis by blast
qed

theorem weekly_buckets_witness:
  "findById steadyEnv ''c1'' = Some monthOfWork \<and>
   length (allSubmissions (loaded steadyEnv monthOfWork)) = 6 \<and>
   calculateWeeklyEngagement steadyEnv ''c1'' = Inr [1, 1, 1, 1]"
proof -
  have f: "findById steadyEnv ''c1'' = Some monthOfWork" by (simp add: steadyEnv_def)
  have six: "length (allSubmissions (loaded steadyEnv monthOfWork)) = 6"
    unfolding loaded_steady by (simp add: allSubmissions_def monthOfWork_def)
  from weekly_buckets [OF f loaded_steady [symmetric]]
  obtain wd where wd: "calculateWeeklyEngagement steadyEnv ''c1'' = Inr wd" "length wd = 4"
    "\<forall>k<4. wd ! (3 - k) = inWeek (newDate steadyEnv) (allSubmissions monthOfWork) k"
    by blast
  have w: "wd ! (3 - k) = inWeek (newDate steadyEnv) (allSubmissions monthOfWork) k"
    if "k < 4" for k
    using wd(3) that by blast
  have "wd ! 0 = 1" "wd ! 1 = 1" "wd ! 2 = 1" "wd ! 3 = 1"
    using w [of 3] w [of 2] w [of 1] w [of 0] inWeek_steady_values by simp_all
  with list4 [OF wd(2)] have "wd = [1, 1, 1, 1]" by simp
  with f six wd(1) show ?thesis by simp
qed

end
